theory Spec2Isabelle
  imports Complex_Main "HOL-Library.Word"
begin

unbundle bit_operations_syntax

section \<open>Data model of package dht\<close>

text \<open>
  The driver samples one GPIO pin. The pin is an input of the program, so the hardware
  is an arbitrary infinite sequence of levels (\<open>levels\<close>), of which every \<open>p.Get()\<close>
  consumes the next one (\<open>samples\<close> counts the calls made so far). Everything the driver
  writes to the outside (pin direction and level, sleeps, the interrupt mask) is appended
  to \<open>events\<close> in program order.
\<close>

datatype event =
    ConfigureOutput | ConfigureInput | Low | High | SetLevel bool
  | SleepStartTimeout | SleepStartingLow | InterruptDisable | InterruptEnable

record hardware =
  levels :: "nat \<Rightarrow> bool"
  samples :: nat
  events :: "event list"

text \<open>
  \<open>thermometer.go\<close> stores the tick counts in a \<open>[80]counter\<close> and fills it with the
  \<open>uint16\<close> that \<open>expectChange\<close> returns: a counter is an unsigned 16-bit integer.
\<close>

type_synonym counter = "16 word"
type_synonym byte = "8 word"

text \<open>The error values of the package; Go's \<open>nil\<close> error is \<open>None\<close>.\<close>

datatype error = NoSignalError | NoDataError | ChecksumError | UninitializedDataError

text \<open>A slice indexed outside its length makes the Go runtime panic.\<close>

datatype panic = IndexOutOfRange

text \<open>
  The struct \<open>device\<close>. Its \<open>pin\<close> field names the one pin of \<open>hardware\<close>. The field
  \<open>measurements\<close> is a \<open>DeviceType\<close>, of which the driver only calls the method
  \<open>extractData(buf) (int16, uint16)\<close>; its implementations are not part of the sources
  at hand, so the field holds that method. \<open>temperature\<close> is an \<open>int16\<close>, read with \<open>sint\<close>.
\<close>

record device =
  measurements :: "byte list \<Rightarrow> 16 word \<times> 16 word"
  initialized :: bool
  temperature :: "16 word"
  humidity :: "16 word"

section \<open>Pin primitives\<close>

definition pin_Get :: "hardware \<Rightarrow> bool \<times> hardware" where
  "pin_Get h = (levels h (samples h), h\<lparr>samples := Suc (samples h)\<rparr>)"

definition emit :: "event \<Rightarrow> hardware \<Rightarrow> hardware" where
  "emit e h = h\<lparr>events := events h @ [e]\<rparr>"

section \<open>util.go\<close>

text \<open>\<open>powerUp\<close>: read the pin; when it is low, drive it high and sleep.\<close>

definition powerUp :: "hardware \<Rightarrow> bool \<times> hardware" where
  "powerUp h =
     (let (state, h1) = pin_Get h
      in if \<not> state then (state, emit SleepStartTimeout (emit High h1)) else (state, h1))"

text \<open>
  \<open>expectChange\<close>: the loop condition \<open>p.Get() == oldState && counter != timeout\<close> samples
  the pin before it looks at the counter, on every test, also on the one that leaves the
  loop. The constant \<open>timeout\<close> is declared outside the sources at hand and is a
  parameter here. The counter is incremented in \<open>uint16\<close> arithmetic.
\<close>

lemma counter_distance_decreases:
  fixes timeout cnt :: counter
  assumes "cnt \<noteq> timeout"
  shows "unat (timeout - (cnt + 1)) < unat (timeout - cnt)"
proof -
  from assms have nz: "timeout - cnt \<noteq> 0"
    by auto
  then have "0 < unat (timeout - cnt)"
    by (simp add: unat_gt_0)
  with nz have lt: "unat (timeout - cnt - 1) < unat (timeout - cnt)"
    by (simp add: unat_minus_one)
  have eq: "timeout - (cnt + 1) = timeout - cnt - 1"
    by simp
  show ?thesis
    unfolding eq by (rule lt)
qed

function expectChange_loop :: "counter \<Rightarrow> bool \<Rightarrow> counter \<Rightarrow> hardware \<Rightarrow> counter \<times> hardware" where
  "expectChange_loop timeout oldState cnt h =
     (let (lvl, h1) = pin_Get h
      in if lvl = oldState \<and> cnt \<noteq> timeout
         then expectChange_loop timeout oldState (cnt + 1) h1
         else (cnt, h1))"
  by pat_completeness auto
termination
  by (relation "measure (\<lambda>(timeout, oldState, cnt, h). unat (timeout - cnt))")
    (auto simp: counter_distance_decreases)

definition expectChange :: "counter \<Rightarrow> bool \<Rightarrow> hardware \<Rightarrow> counter \<times> hardware" where
  "expectChange timeout oldState h = expectChange_loop timeout oldState 0 h"

text \<open>
  \<open>checksum\<close>, \<open>computeChecksum\<close> and \<open>isValid\<close> index the slice they are given; the
  additions are \<open>uint8\<close> additions and wrap around.
\<close>

definition checksum :: "byte list \<Rightarrow> panic + byte" where
  "checksum buf = (if 4 < length buf then Inr (buf ! 4) else Inl IndexOutOfRange)"

definition computeChecksum :: "byte list \<Rightarrow> panic + byte" where
  "computeChecksum buf =
     (if 3 < length buf then Inr (buf ! 0 + buf ! 1 + buf ! 2 + buf ! 3)
      else Inl IndexOutOfRange)"

definition isValid :: "byte list \<Rightarrow> panic + bool" where
  "isValid buf =
     (case checksum buf of
        Inl p \<Rightarrow> Inl p
      | Inr c \<Rightarrow> (case computeChecksum buf of Inl p \<Rightarrow> Inl p | Inr s \<Rightarrow> Inr (c = s)))"

section \<open>thermometer.go\<close>

definition initiateCommunication :: "hardware \<Rightarrow> hardware" where
  "initiateCommunication h =
     emit ConfigureInput (emit High (emit SleepStartingLow (emit Low (emit ConfigureOutput h))))"

text \<open>\<open>waitForDataTransmission\<close> returns at the first wait that gives \<open>timeout\<close>.\<close>

definition waitForDataTransmission :: "counter \<Rightarrow> hardware \<Rightarrow> error option \<times> hardware" where
  "waitForDataTransmission timeout h =
     (let (c1, h1) = expectChange timeout True h
      in if c1 = timeout then (Some NoSignalError, h1)
         else let (c2, h2) = expectChange timeout False h1
              in if c2 = timeout then (Some NoSignalError, h2)
                 else let (c3, h3) = expectChange timeout True h2
                      in if c3 = timeout then (Some NoSignalError, h3) else (None, h3))"

text \<open>
  The loops of \<open>receiveSignals\<close> and \<open>extractData\<close> run a \<open>uint8\<close> index from 0 while it is
  below 40; \<open>i*2\<close>, \<open>i*2+1\<close> and \<open>i >> 3\<close> are computed in \<open>uint8\<close>. An index outside the
  slice panics. A panic ends the program (nothing recovers it), so the hardware state is
  not carried further on that branch, and the order of the call and the bounds check in
  \<open>result[k] = expectChange(...)\<close> does not show.
\<close>

lemma index_step:
  fixes i :: byte
  assumes "i < 40"
  shows "unat (i + 1) = Suc (unat i)"
proof -
  from assms have "unat i < 40"
    by (simp add: word_less_nat_alt)
  then show ?thesis
    by (simp add: unat_word_ariths)
qed

function receiveSignals_loop ::
  "counter \<Rightarrow> byte \<Rightarrow> counter list \<Rightarrow> hardware \<Rightarrow> panic + (counter list \<times> hardware)" where
  "receiveSignals_loop timeout i result h =
     (if i < 40 then
        (let (lowCycle, h1) = expectChange timeout False h
         in if length result \<le> unat (i * 2) then Inl IndexOutOfRange
            else let result1 = result[unat (i * 2) := lowCycle];
                     (highCycle, h2) = expectChange timeout True h1
                 in if length result1 \<le> unat (i * 2 + 1) then Inl IndexOutOfRange
                    else receiveSignals_loop timeout (i + 1)
                           (result1[unat (i * 2 + 1) := highCycle]) h2)
      else Inr (result, h))"
  by pat_completeness auto
termination
  by (relation "measure (\<lambda>(timeout, i, result, h). 40 - unat i)")
    (auto simp: index_step word_less_nat_alt)

definition receiveSignals ::
  "counter \<Rightarrow> counter list \<Rightarrow> hardware \<Rightarrow> panic + (counter list \<times> hardware)" where
  "receiveSignals timeout result h =
     (case receiveSignals_loop timeout 0 result (emit InterruptDisable h) of
        Inl p \<Rightarrow> Inl p
      | Inr (result', h1) \<Rightarrow> Inr (result', emit InterruptEnable h1))"

function extractData_loop ::
  "counter \<Rightarrow> counter list \<Rightarrow> byte \<Rightarrow> byte list \<Rightarrow> panic + (byte list \<times> error option)" where
  "extractData_loop timeout signals i buf =
     (if i < 40 then
        (if length signals \<le> unat (i * 2) then Inl IndexOutOfRange
         else let lowCycle = signals ! unat (i * 2)
              in if length signals \<le> unat (i * 2 + 1) then Inl IndexOutOfRange
                 else let highCycle = signals ! unat (i * 2 + 1)
                      in if lowCycle = timeout \<or> highCycle = timeout
                         then Inr (buf, Some NoDataError)
                         else let byteN = drop_bit 3 i
                              in if length buf \<le> unat byteN then Inl IndexOutOfRange
                                 else let buf1 = buf[unat byteN := push_bit 1 (buf ! unat byteN)];
                                          buf2 = (if highCycle > lowCycle
                                                  then buf1[unat byteN := buf1 ! unat byteN OR 1]
                                                  else buf1)
                                      in extractData_loop timeout signals (i + 1) buf2)
      else Inr (buf, None))"
  by pat_completeness auto
termination
  by (relation "measure (\<lambda>(timeout, signals, i, buf). 40 - unat i)")
    (auto simp: index_step word_less_nat_alt)

definition extractData ::
  "counter \<Rightarrow> counter list \<Rightarrow> byte list \<Rightarrow> panic + (byte list \<times> error option)" where
  "extractData timeout signals buf = extractData_loop timeout signals 0 buf"

text \<open>
  \<open>read\<close> allocates a zeroed \<open>[5]byte\<close> and a zeroed \<open>[80]counter\<close>, and assigns the two
  fields of the device only on its last line.
\<close>

definition read :: "counter \<Rightarrow> device \<Rightarrow> hardware \<Rightarrow> panic + (error option \<times> device \<times> hardware)" where
  "read timeout t h =
     (let buf = replicate 5 0;
          signals = replicate 80 0;
          h1 = initiateCommunication h;
          (err, h2) = waitForDataTransmission timeout h1
      in case err of
           Some e \<Rightarrow> Inr (Some e, t, h2)
         | None \<Rightarrow>
             (case receiveSignals timeout signals h2 of
                Inl p \<Rightarrow> Inl p
              | Inr (signals', h3) \<Rightarrow>
                  (case extractData timeout signals' buf of
                     Inl p \<Rightarrow> Inl p
                   | Inr (buf', Some e) \<Rightarrow> Inr (Some e, t, h3)
                   | Inr (buf', None) \<Rightarrow>
                       (case isValid buf' of
                          Inl p \<Rightarrow> Inl p
                        | Inr False \<Rightarrow> Inr (Some ChecksumError, t, h3)
                        | Inr True \<Rightarrow>
                            (let (temp, hum) = measurements t buf'
                             in Inr (None, t\<lparr>temperature := temp, humidity := hum\<rparr>, h3))))))"

text \<open>
  \<open>Measurements\<close> has the named results \<open>temperature\<close>, \<open>humidity\<close> and \<open>err\<close>, which start
  at zero; the body of \<open>if err != nil\<close> assigns the first two and sets \<open>initialized\<close>. The
  deferred \<open>t.pin.Set(state)\<close> runs last.
\<close>

definition Measurements ::
  "counter \<Rightarrow> device \<Rightarrow> hardware \<Rightarrow> panic + ((16 word \<times> 16 word \<times> error option) \<times> device \<times> hardware)" where
  "Measurements timeout t h =
     (let (state, h1) = powerUp h
      in case read timeout t h1 of
           Inl p \<Rightarrow> Inl p
         | Inr (err, t1, h2) \<Rightarrow>
             (if err \<noteq> None
              then Inr ((temperature t1, humidity t1, err), t1\<lparr>initialized := True\<rparr>,
                        emit (SetLevel state) h2)
              else Inr ((0, 0, err), t1, emit (SetLevel state) h2)))"

definition ReadMeasurements ::
  "counter \<Rightarrow> device \<Rightarrow> hardware \<Rightarrow> panic + (error option \<times> device \<times> hardware)" where
  "ReadMeasurements timeout t h =
     (case Measurements timeout t h of
        Inl p \<Rightarrow> Inl p
      | Inr ((_, _, err), t1, h1) \<Rightarrow> Inr (err, t1, h1))"

text \<open>
  The accessors. A \<open>float32\<close> value is stood for by the real number it denotes. The
  method \<open>scale.convertToFloat\<close> is outside the sources at hand and is the parameter
  \<open>scale\<close>.

  \<open>HumidityFloat\<close> computes \<open>float32(t.humidity) / 10.\<close>: the conversion of a \<open>uint16\<close> is
  exact (16 bits in a significand of 24), and the division gives the \<open>float32\<close> nearest to
  the quotient, ties to even. \<open>float32_div10 n\<close> is that value: \<open>k\<close> is the shift that
  brings \<open>n / 10\<close> into \<open>[2^23, 2^24)\<close>, so that the significand is \<open>n * 2^k / 10\<close> rounded to
  an integer; for \<open>0 < n < 2^16\<close> it lies between 11 and 27, and the quotient is in the
  normal range.
\<close>

definition float32_div10 :: "nat \<Rightarrow> real" where
  "float32_div10 n =
     (case find (\<lambda>k. 10 * 2 ^ 23 \<le> n * 2 ^ k) [11..<28] of
        None \<Rightarrow> 0
      | Some k \<Rightarrow>
          (let N = n * 2 ^ k;
               q = N div 10;
               r = N mod 10;
               m = (if 5 < r \<or> (r = 5 \<and> odd q) then q + 1 else q)
           in real m / 2 ^ k))"

definition Temperature :: "device \<Rightarrow> 16 word \<times> error option" where
  "Temperature t =
     (if \<not> initialized t then (0, Some UninitializedDataError) else (temperature t, None))"

definition TemperatureFloat :: "device \<Rightarrow> (16 word \<Rightarrow> real) \<Rightarrow> real \<times> error option" where
  "TemperatureFloat t scale =
     (if \<not> initialized t then (0, Some UninitializedDataError)
      else (scale (temperature t), None))"

definition Humidity :: "device \<Rightarrow> 16 word \<times> error option" where
  "Humidity t =
     (if \<not> initialized t then (0, Some UninitializedDataError) else (humidity t, None))"

definition HumidityFloat :: "device \<Rightarrow> real \<times> error option" where
  "HumidityFloat t =
     (if \<not> initialized t then (0, Some UninitializedDataError)
      else (float32_div10 (unat (humidity t)), None))"

text \<open>
  \<open>New\<close> and \<open>NewWithPolicy\<close> wrap the same \<open>device\<close> literal: the given device type,
  \<open>initialized: false\<close>, and the zero value for the two fields they do not mention.
\<close>

definition New_device :: "(byte list \<Rightarrow> 16 word \<times> 16 word) \<Rightarrow> device" where
  "New_device deviceType =
     \<lparr>measurements = deviceType, initialized = False, temperature = 0, humidity = 0\<rparr>"

section \<open>Reference definitions and inputs\<close>

text \<open>
  The transmission wait as a reader of the specification would write it: three successive
  waits (departure from high, from low, from high), all of them performed, and a
  \<open>NoSignalError\<close> exactly when at least one of them returned \<open>timeout\<close>. It is compared
  with \<open>waitForDataTransmission\<close> below.
\<close>

definition three_waits :: "counter \<Rightarrow> hardware \<Rightarrow> error option \<times> hardware" where
  "three_waits timeout h =
     (let (c1, h1) = expectChange timeout True h;
          (c2, h2) = expectChange timeout False h1;
          (c3, h3) = expectChange timeout True h2
      in (if c1 = timeout \<or> c2 = timeout \<or> c3 = timeout then Some NoSignalError else None, h3))"

text \<open>
  The loop invariant of \<open>extractData\<close>: after \<open>n\<close> bits, bit \<open>j < n\<close> sits in byte
  \<open>j div 8\<close>, at the position it has reached by the shifts made so far.
\<close>

definition bits_decoded :: "nat \<Rightarrow> counter list \<Rightarrow> byte list \<Rightarrow> bool" where
  "bits_decoded n signals buf \<longleftrightarrow>
     (\<forall>j<n. bit (buf ! (j div 8)) (min n (8 * (j div 8) + 8) - 1 - j)
              = (signals ! (2 * j) < signals ! (2 * j + 1)))"

text \<open>
  Modelled from the spec: the \<open>DeviceType\<close> implementations are not in the sources at hand.
  This is the variant that "encodes temperature and humidity as raw 8-bit integers
  directly in bytes 0 and 2", for which the bytes \<open>[25,0,60,0,85]\<close> give humidity 250
  and temperature 600, in tenths. It is used as the device type of the example devices only.
\<close>

definition dht11_extractData :: "byte list \<Rightarrow> 16 word \<times> 16 word" where
  "dht11_extractData buf = (ucast (buf ! 2) * 10, ucast (buf ! 0) * 10)"

text \<open>
  Example inputs. \<open>sensor payload\<close> is a pin on which the line is high when \<open>powerUp\<close> looks
  at it, the three handshake transitions come at once, and each of the 40 bits of
  \<open>payload\<close> (most significant bit of byte 0 first) takes three samples: a zero bit is low
  for one tick and high for none, a one bit is low for none and high for one tick.
  \<open>silent\<close> is a pin that stays high (no sensor answers); \<open>leaves_on_last_poll\<close> is high
  for three samples and low from the fourth on; \<open>stalls_after_handshake\<close> answers
  the handshake and then stays high. \<open>example_signals\<close> are 80 tick counts for the bytes
  \<open>[0x32, 0x00, 0x19, 0x00, 0x4B]\<close>, with low 30 and high 10 (or both 20) for a zero bit
  and low 10 and high 30 for a one bit. \<open>device_with_reading\<close> is a device that holds
  the values of an earlier read.
\<close>

definition sensor_levels :: "byte list \<Rightarrow> nat \<Rightarrow> bool" where
  "sensor_levels payload n =
     (if n < 4 then even n
      else let m = n - 4; j = m div 3; r = m mod 3
           in if 40 \<le> j then True
              else if r = 0 then bit (payload ! (j div 8)) (7 - j mod 8)
              else r = 1)"

definition sensor :: "byte list \<Rightarrow> hardware" where
  "sensor payload = \<lparr>levels = sensor_levels payload, samples = 0, events = []\<rparr>"

definition silent :: hardware where
  "silent = \<lparr>levels = \<lambda>n. True, samples = 0, events = []\<rparr>"

definition leaves_on_last_poll :: hardware where
  "leaves_on_last_poll = \<lparr>levels = \<lambda>n. n < 3, samples = 0, events = []\<rparr>"

definition stalls_after_handshake :: hardware where
  "stalls_after_handshake = \<lparr>levels = \<lambda>n. n \<noteq> 0 \<and> n \<noteq> 2, samples = 0, events = []\<rparr>"

definition example_signals :: "counter list" where
  "example_signals =
     [30, 10, 30, 10, 10, 30, 10, 30, 30, 10, 30, 10, 10, 30, 30, 10,
      20, 20, 20, 20, 20, 20, 20, 20, 20, 20, 20, 20, 20, 20, 20, 20,
      30, 10, 30, 10, 30, 10, 10, 30, 10, 30, 30, 10, 30, 10, 10, 30,
      30, 10, 30, 10, 30, 10, 30, 10, 30, 10, 30, 10, 30, 10, 30, 10,
      30, 10, 10, 30, 30, 10, 30, 10, 10, 30, 30, 10, 10, 30, 10, 30]"

definition device_with_reading :: device where
  "device_with_reading =
     \<lparr>measurements = dht11_extractData, initialized = True, temperature = 250, humidity = 500\<rparr>"

section \<open>Checksum validation\<close>

lemma isValid_len5:
  "length buf = 5 \<Longrightarrow> isValid buf = Inr (buf ! 4 = buf ! 0 + buf ! 1 + buf ! 2 + buf ! 3)"
  by (simp add: isValid_def checksum_def computeChecksum_def)

lemma byte_sum_unat:
  fixes b0 b1 b2 b3 b4 :: byte
  shows "(b4 = b0 + b1 + b2 + b3) = (unat b4 = (unat b0 + unat b1 + unat b2 + unat b3) mod 256)"
proof -
  have "unat (b0 + b1 + b2 + b3) = (unat b0 + unat b1 + unat b2 + unat b3) mod 256"
    by (simp add: unat_word_ariths mod_simps)
  then show ?thesis
    by (metis word_unat_eq_iff)
qed

text \<open>
  C4. On every buffer of five bytes \<open>isValid\<close> returns (without panic) whether the fifth
  byte, read as a number, is the sum of the first four modulo 256. The buffer
  \<open>[0x32, 0x00, 0x19, 0x00, 0x4B]\<close> is valid, and the same buffer ending in \<open>0x00\<close> is not.
\<close>

theorem isValid_iff_checksum:
  "isValid [b0, b1, b2, b3, b4] = Inr (unat b4 = (unat b0 + unat b1 + unat b2 + unat b3) mod 256)
   \<and> isValid [0x32, 0x00, 0x19, 0x00, 0x4B] = Inr True
   \<and> isValid [0x32, 0x00, 0x19, 0x00, 0x00] = Inr False"
  by (simp add: isValid_len5 byte_sum_unat [symmetric])

section \<open>The pulse sampler\<close>

declare expectChange_loop.simps [simp del]

lemma counter_succ:
  fixes cnt timeout :: counter
  assumes "cnt \<le> timeout" "cnt \<noteq> timeout"
  shows "cnt + 1 \<le> timeout" "unat (cnt + 1) = Suc (unat cnt)"
proof -
  from assms have lt: "unat cnt < unat timeout"
    by (simp add: word_le_nat_alt word_unat_eq_iff)
  have "unat timeout < 2 ^ 16"
    using unsigned_less [of timeout] by simp
  with lt show u: "unat (cnt + 1) = Suc (unat cnt)"
    by (simp add: unat_word_ariths)
  with lt show "cnt + 1 \<le> timeout"
    by (simp add: word_le_nat_alt)
qed

lemma expectChange_loop_spec:
  "cnt \<le> timeout \<Longrightarrow>
   \<exists>c. expectChange_loop timeout old cnt h
         = (c, h\<lparr>samples := samples h + (unat c - unat cnt) + 1\<rparr>)
     \<and> cnt \<le> c \<and> c \<le> timeout
     \<and> (\<forall>k < unat c - unat cnt. levels h (samples h + k) = old)
     \<and> (c \<noteq> timeout \<longrightarrow> levels h (samples h + (unat c - unat cnt)) \<noteq> old)"
proof (induction timeout old cnt h rule: expectChange_loop.induct)
  case (1 timeout oldState cnt h)
  let ?h1 = "h\<lparr>samples := Suc (samples h)\<rparr>"
  show ?case
  proof (cases "levels h (samples h) = oldState \<and> cnt \<noteq> timeout")
    case False
    then have "expectChange_loop timeout oldState cnt h = (cnt, ?h1)"
      by (subst expectChange_loop.simps) (auto simp: pin_Get_def)
    with False "1.prems" show ?thesis
      by auto
  next
    case True
    then have unf: "expectChange_loop timeout oldState cnt h
        = expectChange_loop timeout oldState (cnt + 1) ?h1"
      by (subst expectChange_loop.simps) (simp add: pin_Get_def)
    from True "1.prems" have le: "cnt + 1 \<le> timeout" and u: "unat (cnt + 1) = Suc (unat cnt)"
      by (simp_all add: counter_succ)
    from "1.IH" [of "(levels h (samples h), ?h1)" "levels h (samples h)" ?h1] True le
    obtain c where c: "expectChange_loop timeout oldState (cnt + 1) ?h1
          = (c, ?h1\<lparr>samples := samples ?h1 + (unat c - unat (cnt + 1)) + 1\<rparr>)"
      "cnt + 1 \<le> c" "c \<le> timeout"
      "\<forall>k < unat c - unat (cnt + 1). levels ?h1 (samples ?h1 + k) = oldState"
      "c \<noteq> timeout \<longrightarrow> levels ?h1 (samples ?h1 + (unat c - unat (cnt + 1))) \<noteq> oldState"
      by (auto simp: pin_Get_def)
    from c(2) u have lt: "unat cnt < unat c"
      by (simp add: word_le_nat_alt)
    have "expectChange_loop timeout oldState cnt h
        = (c, h\<lparr>samples := samples h + (unat c - unat cnt) + 1\<rparr>)"
      using unf c(1) u lt by simp
    moreover have "cnt \<le> c"
      using lt by (simp add: word_le_nat_alt)
    moreover have "\<forall>k < unat c - unat cnt. levels h (samples h + k) = oldState"
    proof (intro allI impI)
      fix k assume k: "k < unat c - unat cnt"
      show "levels h (samples h + k) = oldState"
      proof (cases k)
        case 0
        with True show ?thesis by simp
      next
        case (Suc j)
        with k u have "j < unat c - unat (cnt + 1)" by simp
        with c(4) Suc show ?thesis by simp
      qed
    qed
    moreover have "c \<noteq> timeout \<longrightarrow> levels h (samples h + (unat c - unat cnt)) \<noteq> oldState"
    proof
      assume "c \<noteq> timeout"
      with c(5) have ne: "levels h (Suc (samples h) + (unat c - unat (cnt + 1))) \<noteq> oldState"
        by simp
      have eq: "Suc (samples h) + (unat c - unat (cnt + 1)) = samples h + (unat c - unat cnt)"
        using u lt by simp
      from ne show "levels h (samples h + (unat c - unat cnt)) \<noteq> oldState"
        unfolding eq .
    qed
    ultimately show ?thesis
      using c(3) by blast
  qed
qed

text \<open>
  C9, as amended. \<open>expectChange\<close> is a total function: on every sequence of pin levels it
  returns. The counter it returns is at most \<open>timeout\<close>; it is the number of times the loop
  body ran, and the pin was polled once more than that. Every poll before the last one
  found the starting level, and when the result is below \<open>timeout\<close> the last poll found the
  other level. The result is \<open>timeout\<close> exactly when the first \<open>timeout\<close> polls all found
  the starting level: what the poll that ends the loop at the ceiling finds has no part in
  the result.
\<close>

theorem expectChange_bounded:
  "unat (fst (expectChange timeout old h)) \<le> unat timeout
   \<and> samples (snd (expectChange timeout old h))
       = samples h + unat (fst (expectChange timeout old h)) + 1
   \<and> (\<forall>k < unat (fst (expectChange timeout old h)). levels h (samples h + k) = old)
   \<and> (fst (expectChange timeout old h) \<noteq> timeout
        \<longrightarrow> levels h (samples h + unat (fst (expectChange timeout old h))) \<noteq> old)
   \<and> (fst (expectChange timeout old h) = timeout
        \<longleftrightarrow> (\<forall>k < unat timeout. levels h (samples h + k) = old))"
proof -
  from expectChange_loop_spec [of 0 timeout old h]
  obtain c where c: "expectChange timeout old h = (c, h\<lparr>samples := samples h + unat c + 1\<rparr>)"
    "c \<le> timeout" "\<forall>k < unat c. levels h (samples h + k) = old"
    "c \<noteq> timeout \<longrightarrow> levels h (samples h + unat c) \<noteq> old"
    by (auto simp: expectChange_def)
  have "c = timeout \<longleftrightarrow> (\<forall>k < unat timeout. levels h (samples h + k) = old)"
  proof
    assume "c = timeout"
    with c(3) show "\<forall>k < unat timeout. levels h (samples h + k) = old"
      by simp
  next
    assume all: "\<forall>k < unat timeout. levels h (samples h + k) = old"
    show "c = timeout"
    proof (rule ccontr)
      assume ne: "c \<noteq> timeout"
      with c(2) have "unat c < unat timeout"
        by (simp add: word_le_nat_alt word_unat_eq_iff)
      with all have "levels h (samples h + unat c) = old"
        by simp
      with c(4) ne show False
        by simp
    qed
  qed
  with c show ?thesis
    by (simp add: word_le_nat_alt)
qed

lemma eval_last_poll:
  "fst (expectChange 3 True leaves_on_last_poll) = 3
   \<and> samples (snd (expectChange 3 True leaves_on_last_poll)) = 4
   \<and> fst (expectChange 3 True \<lparr>levels = \<lambda>n. n < 2, samples = 0, events = []\<rparr>) = 2
   \<and> samples (snd (expectChange 3 True \<lparr>levels = \<lambda>n. n < 2, samples = 0, events = []\<rparr>)) = 3"
  by code_simp

theorem expectChange_bounded_witness:
  "fst (expectChange 3 True leaves_on_last_poll) = 3
   \<and> samples (snd (expectChange 3 True leaves_on_last_poll)) = 4
   \<and> fst (expectChange 3 True \<lparr>levels = \<lambda>n. n < 2, samples = 0, events = []\<rparr>) = 2
   \<and> samples (snd (expectChange 3 True \<lparr>levels = \<lambda>n. n < 2, samples = 0, events = []\<rparr>)) = 3"
  using expectChange_bounded [of 3 True leaves_on_last_poll]
    expectChange_bounded [of 3 True "\<lparr>levels = \<lambda>n. n < 2, samples = 0, events = []\<rparr>"]
    eval_last_poll
  by simp

text \<open>
  C9 as stated fails at the ceiling. With \<open>timeout = 3\<close> and a pin that is high on the
  polls 0, 1, 2 and low on poll 3, the loop body runs three times, the fourth poll finds
  the pin low, which ends the loop, and the result is 3, the ceiling: the pin did depart
  from the starting level on a poll the loop made, so that "ceiling if and only if every
  poll of the loop found the starting level" is false there.
\<close>

theorem expectChange_ceiling_counterexample:
  "fst (expectChange 3 True leaves_on_last_poll) = 3
   \<and> samples (snd (expectChange 3 True leaves_on_last_poll)) = 4
   \<and> levels leaves_on_last_poll 3 = False
   \<and> \<not> (fst (expectChange 3 True leaves_on_last_poll) = 3
        \<longleftrightarrow> (\<forall>k < samples (snd (expectChange 3 True leaves_on_last_poll)).
               levels leaves_on_last_poll k = True))"
proof -
  have "\<not> (\<forall>k<4. levels leaves_on_last_poll k = True)"
    by (auto simp: leaves_on_last_poll_def intro!: exI [of _ "3::nat"])
  with eval_last_poll show ?thesis
    by (simp add: leaves_on_last_poll_def)
qed

section \<open>Signal reception and bit decoding\<close>

declare receiveSignals_loop.simps [simp del]

declare extractData_loop.simps [simp del]

lemma index_bounds:
  fixes i :: byte
  assumes "i < 40"
  shows "unat (i * 2) = 2 * unat i" "unat (i * 2 + 1) = 2 * unat i + 1"
    "unat (drop_bit 3 i) = unat i div 8"
proof -
  from assms have lt: "unat i < 40"
    by (simp add: word_less_nat_alt)
  then show m: "unat (i * 2) = 2 * unat i"
    by (simp add: unat_word_ariths)
  from lt show "unat (i * 2 + 1) = 2 * unat i + 1"
    by (simp add: unat_word_ariths m mod_simps)
  show "unat (drop_bit 3 i) = unat i div 8"
    by (simp add: drop_bit_eq_div unat_div)
qed

lemma receiveSignals_loop_ok:
  "length result = 80 \<Longrightarrow>
   \<exists>r h'. receiveSignals_loop timeout i result h = Inr (r, h') \<and> length r = 80"
proof (induction timeout i result h rule: receiveSignals_loop.induct)
  case (1 timeout i result h)
  show ?case
  proof (cases "i < 40")
    case False
    with "1.prems" show ?thesis
      by (subst receiveSignals_loop.simps) simp
  next
    case True
    then have lt: "unat i < 40"
      by (simp add: word_less_nat_alt)
    obtain lo h1 where lo: "expectChange timeout False h = (lo, h1)"
      by (cases "expectChange timeout False h")
    obtain hi h2 where hi: "expectChange timeout True h1 = (hi, h2)"
      by (cases "expectChange timeout True h1")
    let ?r = "result[unat (i * 2) := lo, unat (i * 2 + 1) := hi]"
    from True lt "1.prems" lo hi
    have unf: "receiveSignals_loop timeout i result h = receiveSignals_loop timeout (i + 1) ?r h2"
      by (subst receiveSignals_loop.simps) (simp add: index_bounds)
    have "\<exists>r h'. receiveSignals_loop timeout (i + 1) ?r h2 = Inr (r, h') \<and> length r = 80"
      using True lt "1.prems" lo hi
      by (intro "1.IH" [of "(lo, h1)" lo h1 "result[unat (i * 2) := lo]" "(hi, h2)" hi h2])
        (simp_all add: index_bounds)
    with unf show ?thesis
      by simp
  qed
qed

lemma bit_shift_left_one:
  fixes x :: byte
  shows "bit (push_bit 1 x) p \<longleftrightarrow> 0 < p \<and> p < 8 \<and> bit x (p - 1)"
  unfolding bit_push_bit_iff by auto

lemma bits_decoded_step:
  assumes n: "n < 40" and len: "length buf = 5" and inv: "bits_decoded n signals buf"
    and w: "w = push_bit 1 (buf ! (n div 8)) OR (if signals ! (2 * n) < signals ! (2 * n + 1) then 1 else 0)"
  shows "bits_decoded (Suc n) signals (buf[n div 8 := w])"
  unfolding bits_decoded_def
proof (intro allI impI)
  fix j assume j: "j < Suc n"
  let ?k = "n div 8"
  from n len have k: "?k < length buf"
    by simp
  have bw: "bit w p \<longleftrightarrow>
      (if p = 0 then signals ! (2 * n) < signals ! (2 * n + 1) else p < 8 \<and> bit (buf ! ?k) (p - 1))" for p
    unfolding w bit_or_iff bit_shift_left_one by (auto simp: bit_1_iff)
  show "bit (buf[?k := w] ! (j div 8)) (min (Suc n) (8 * (j div 8) + 8) - 1 - j)
      = (signals ! (2 * j) < signals ! (2 * j + 1))"
  proof (cases "j = n")
    case True
    have "min (Suc n) (8 * (n div 8) + 8) - 1 - n = 0"
      by simp
    with True k show ?thesis
      by (simp add: bw)
  next
    case False
    with j have jn: "j < n"
      by simp
    with inv have old: "bit (buf ! (j div 8)) (min n (8 * (j div 8) + 8) - 1 - j)
        = (signals ! (2 * j) < signals ! (2 * j + 1))"
      by (simp add: bits_decoded_def)
    show ?thesis
    proof (cases "j div 8 = ?k")
      case True
      have nb: "n < 8 * (n div 8) + 8" and jb: "8 * (j div 8) \<le> j"
        by simp_all
      from jn True nb jb have p: "min (Suc n) (8 * (n div 8) + 8) - 1 - j = Suc (n - 1 - j)"
        "min n (8 * (n div 8) + 8) - 1 - j = n - 1 - j" "Suc (n - 1 - j) < 8"
        by simp_all
      have "bit (buf[?k := w] ! (j div 8)) (min (Suc n) (8 * (j div 8) + 8) - 1 - j)
          = bit w (Suc (n - 1 - j))"
        using True k by (simp only: p(1) nth_list_update_eq)
      also have "\<dots> = bit (buf ! ?k) (n - 1 - j)"
        using p(3) by (simp only: bw) simp
      also have "\<dots> = (signals ! (2 * j) < signals ! (2 * j + 1))"
        using old True by (simp only: p(2))
      finally show ?thesis .
    next
      case False
      moreover from jn have "j div 8 \<le> ?k"
        by (simp add: div_le_mono)
      ultimately have "Suc (j div 8) \<le> ?k"
        by simp
      then have "8 * Suc (j div 8) \<le> 8 * ?k"
        by (simp only: mult_le_mono2)
      moreover have "8 * ?k \<le> n"
        by simp
      ultimately have "min (Suc n) (8 * (j div 8) + 8) = min n (8 * (j div 8) + 8)"
        by simp
      with False old show ?thesis
        by simp
    qed
  qed
qed

lemma extractData_loop_done:
  "\<not> i < 40 \<Longrightarrow> extractData_loop timeout signals i buf = Inr (buf, None)"
  by (subst extractData_loop.simps) simp

lemma extractData_loop_step:
  assumes "i < 40" "length signals = 80" "length buf = 5"
  shows "extractData_loop timeout signals i buf =
     (if signals ! (2 * unat i) = timeout \<or> signals ! (2 * unat i + 1) = timeout
      then Inr (buf, Some NoDataError)
      else extractData_loop timeout signals (i + 1)
             (buf[unat i div 8 := push_bit 1 (buf ! (unat i div 8))
                OR (if signals ! (2 * unat i) < signals ! (2 * unat i + 1) then 1 else 0)]))"
proof -
  from assms(1) have lt: "unat i < 40"
    by (simp add: word_less_nat_alt)
  then have k: "unat i div 8 < 5"
    by simp
  show ?thesis
    using assms lt k
    by (subst extractData_loop.simps) (simp add: index_bounds Let_def del: push_bit_Suc push_bit_of_Suc_0)
qed

lemma extractData_loop_decodes:
  assumes "length signals = 80" "timeout \<notin> set signals"
  shows "n = 40 - unat i \<Longrightarrow> unat i \<le> 40 \<Longrightarrow> length buf = 5 \<Longrightarrow>
     bits_decoded (unat i) signals buf \<Longrightarrow>
     \<exists>buf'. extractData_loop timeout signals i buf = Inr (buf', None) \<and> length buf' = 5
       \<and> bits_decoded 40 signals buf'"
proof (induction n arbitrary: i buf)
  case 0
  then have "unat i = 40"
    by simp
  then have "\<not> i < 40"
    by (simp add: word_less_nat_alt)
  with 0 \<open>unat i = 40\<close> show ?case
    by (simp add: extractData_loop_done)
next
  case (Suc n)
  then have lt: "unat i < 40"
    by simp
  then have i: "i < 40"
    by (simp add: word_less_nat_alt)
  let ?w = "push_bit 1 (buf ! (unat i div 8))
      OR (if signals ! (2 * unat i) < signals ! (2 * unat i + 1) then 1 else 0)"
  let ?buf = "buf[unat i div 8 := ?w]"
  from lt assms have "signals ! (2 * unat i) \<in> set signals" "signals ! (2 * unat i + 1) \<in> set signals"
    by simp_all
  with assms(2) have "signals ! (2 * unat i) \<noteq> timeout" "signals ! (2 * unat i + 1) \<noteq> timeout"
    by auto
  with i assms(1) Suc.prems(3)
  have unf: "extractData_loop timeout signals i buf = extractData_loop timeout signals (i + 1) ?buf"
    by (simp only: extractData_loop_step) simp
  from lt Suc.prems(3,4) have "bits_decoded (Suc (unat i)) signals ?buf"
    by (intro bits_decoded_step) simp_all
  moreover have "unat (i + 1) = Suc (unat i)"
    using i by (rule index_step)
  ultimately have "\<exists>buf'. extractData_loop timeout signals (i + 1) ?buf = Inr (buf', None)
      \<and> length buf' = 5 \<and> bits_decoded 40 signals buf'"
    using Suc.prems lt by (intro Suc.IH) simp_all
  with unf show ?case
    by simp
qed

lemma extractData_loop_timeout:
  assumes "length signals = 80"
  shows "n = 40 - unat i \<Longrightarrow> length buf = 5 \<Longrightarrow>
     \<exists>k. 2 * unat i \<le> k \<and> k < 80 \<and> signals ! k = timeout \<Longrightarrow>
     \<exists>buf'. extractData_loop timeout signals i buf = Inr (buf', Some NoDataError)
       \<and> length buf' = 5"
proof (induction n arbitrary: i buf)
  case 0
  then show ?case
    by auto
next
  case (Suc n)
  then have lt: "unat i < 40"
    by simp
  then have i: "i < 40"
    by (simp add: word_less_nat_alt)
  from Suc.prems(3) obtain k where k: "2 * unat i \<le> k" "k < 80" "signals ! k = timeout"
    by blast
  show ?case
  proof (cases "signals ! (2 * unat i) = timeout \<or> signals ! (2 * unat i + 1) = timeout")
    case True
    with i assms Suc.prems(2) show ?thesis
      by (simp only: extractData_loop_step) simp
  next
    case False
    let ?w = "push_bit 1 (buf ! (unat i div 8))
        OR (if signals ! (2 * unat i) < signals ! (2 * unat i + 1) then 1 else 0)"
    let ?buf = "buf[unat i div 8 := ?w]"
    from False i assms Suc.prems(2)
    have unf: "extractData_loop timeout signals i buf = extractData_loop timeout signals (i + 1) ?buf"
      by (simp only: extractData_loop_step) simp
    have u: "unat (i + 1) = Suc (unat i)"
      using i by (rule index_step)
    from False k have "k \<noteq> 2 * unat i" "k \<noteq> 2 * unat i + 1"
      by auto
    with k(1) have "2 * unat (i + 1) \<le> k"
      by (simp add: u)
    with k have "\<exists>k. 2 * unat (i + 1) \<le> k \<and> k < 80 \<and> signals ! k = timeout"
      by blast
    then have "\<exists>buf'. extractData_loop timeout signals (i + 1) ?buf = Inr (buf', Some NoDataError)
        \<and> length buf' = 5"
      using Suc.prems(1,2) u by (intro Suc.IH) simp_all
    with unf show ?thesis
      by simp
  qed
qed

lemma eval_example_signals:
  "extractData 1000 example_signals [0, 0, 0, 0, 0] = Inr ([0x32, 0, 0x19, 0, 0x4B], None)
   \<and> length example_signals = 80 \<and> 1000 \<notin> set example_signals"
  by code_simp

lemma receiveSignals_ok:
  assumes "length result = 80"
  shows "\<exists>r h'. receiveSignals timeout result h = Inr (r, h') \<and> length r = 80"
proof -
  from receiveSignals_loop_ok [OF assms, of timeout 0 "emit InterruptDisable h"]
  obtain r h' where "receiveSignals_loop timeout 0 result (emit InterruptDisable h) = Inr (r, h')"
    "length r = 80"
    by blast
  then show ?thesis
    by (simp add: receiveSignals_def)
qed

lemma extractData_ok:
  assumes "length signals = 80" "length buf = 5"
  shows "\<exists>buf' e. extractData timeout signals buf = Inr (buf', e) \<and> length buf' = 5
     \<and> (e = Some NoDataError \<longleftrightarrow> timeout \<in> set signals)
     \<and> (e = None \<longleftrightarrow> timeout \<notin> set signals)"
proof (cases "timeout \<in> set signals")
  case True
  then obtain k where "k < 80" "signals ! k = timeout"
    using assms(1) by (auto simp: in_set_conv_nth)
  then have "\<exists>k. 2 * unat (0 :: byte) \<le> k \<and> k < 80 \<and> signals ! k = timeout"
    by auto
  from extractData_loop_timeout [OF assms(1) _ assms(2) this, of 40] True show ?thesis
    by (auto simp: extractData_def)
next
  case False
  have "bits_decoded (unat (0 :: byte)) signals buf"
    by (simp add: bits_decoded_def)
  from extractData_loop_decodes [OF assms(1) False _ _ assms(2) this, of 40] False show ?thesis
    by (auto simp: extractData_def)
qed

text \<open>
  C10. With a result slice of 80 counters \<open>receiveSignals\<close> never panics, and with 80
  signals and a buffer of 5 bytes \<open>extractData\<close> never panics: for every loop index
  \<open>i < 40\<close> the \<open>uint8\<close> expressions \<open>i*2\<close> and \<open>i*2+1\<close> do not wrap and are below 80, and
  \<open>i >> 3\<close> is \<open>i / 8\<close> and below 5.
\<close>

theorem indices_in_bounds:
  assumes "length result = 80" "length signals = 80" "length buf = 5"
  shows "(\<exists>r. receiveSignals timeout result h = Inr r)
     \<and> (\<exists>r. extractData timeout signals buf = Inr r)
     \<and> (\<forall>i::byte. i < 40 \<longrightarrow>
           unat (i * 2) = 2 * unat i \<and> unat (i * 2) < 80
         \<and> unat (i * 2 + 1) = 2 * unat i + 1 \<and> unat (i * 2 + 1) < 80
         \<and> unat (drop_bit 3 i) = unat i div 8 \<and> unat (drop_bit 3 i) < 5)"
proof (intro conjI allI impI)
  show "\<exists>r. receiveSignals timeout result h = Inr r"
    using receiveSignals_ok [OF assms(1), of timeout h] by blast
  show "\<exists>r. extractData timeout signals buf = Inr r"
    using extractData_ok [OF assms(2,3), of timeout] by blast
next
  fix i :: byte assume i: "i < 40"
  then have lt: "unat i < 40"
    by (simp add: word_less_nat_alt)
  show "unat (i * 2) = 2 * unat i" "unat (i * 2 + 1) = 2 * unat i + 1"
    "unat (drop_bit 3 i) = unat i div 8"
    using i by (rule index_bounds)+
  with lt show "unat (i * 2) < 80" "unat (i * 2 + 1) < 80" "unat (drop_bit 3 i) < 5"
    by simp_all
qed

theorem indices_in_bounds_witness:
  "(\<exists>r. receiveSignals 1000 (replicate 80 0) silent = Inr r)
   \<and> (\<exists>r. extractData 1000 example_signals (replicate 5 0) = Inr r)
   \<and> unat (39 * 2 + 1 :: byte) = 79 \<and> unat (drop_bit 3 (39 :: byte)) = 4"
  using indices_in_bounds [of "replicate 80 0" example_signals "replicate 5 0" 1000 silent]
  by (simp add: example_signals_def)

text \<open>
  C5. On 80 signals none of which is \<open>timeout\<close>, \<open>extractData\<close> returns no error, and in
  the buffer it leaves (whatever the buffer held before) bit \<open>i\<close> of the transmission is
  bit \<open>7 - i mod 8\<close> of byte \<open>i div 8\<close> (most significant bit first); it is 1 exactly when
  the high count \<open>signals[2i+1]\<close> is strictly greater than the low count \<open>signals[2i]\<close>.
\<close>

theorem extractData_decodes_bits:
  assumes "length signals = 80" "length buf = 5" "timeout \<notin> set signals"
  shows "\<exists>buf'. extractData timeout signals buf = Inr (buf', None) \<and> length buf' = 5
     \<and> (\<forall>i<40. bit (buf' ! (i div 8)) (7 - i mod 8)
                  = (signals ! (2 * i) < signals ! (2 * i + 1)))"
proof -
  have "bits_decoded (unat (0 :: byte)) signals buf"
    by (simp add: bits_decoded_def)
  from extractData_loop_decodes [OF assms(1,3) _ _ assms(2) this, of 40]
  obtain buf' where b: "extractData timeout signals buf = Inr (buf', None)" "length buf' = 5"
    "bits_decoded 40 signals buf'"
    by (auto simp: extractData_def)
  have "bit (buf' ! (i div 8)) (7 - i mod 8) = (signals ! (2 * i) < signals ! (2 * i + 1))"
    if "i < 40" for i
  proof -
    from that have "i div 8 < 5"
      by simp
    then have "8 * (i div 8) + 8 \<le> 40"
      by simp
    then have "min 40 (8 * (i div 8) + 8) - 1 - i = 8 * (i div 8) + 7 - i"
      by simp
    also have "\<dots> = 7 - i mod 8"
    proof -
      have "i = 8 * (i div 8) + i mod 8"
        by simp
      then show ?thesis
        by linarith
    qed
    finally have pos: "min 40 (8 * (i div 8) + 8) - 1 - i = 7 - i mod 8" .
    from b(3) that have "bit (buf' ! (i div 8)) (min 40 (8 * (i div 8) + 8) - 1 - i)
        = (signals ! (2 * i) < signals ! (2 * i + 1))"
      unfolding bits_decoded_def by blast
    then show ?thesis
      unfolding pos .
  qed
  with b show ?thesis
    by blast
qed

theorem extractData_decodes_bits_witness:
  "extractData 1000 example_signals [0, 0, 0, 0, 0] = Inr ([0x32, 0, 0x19, 0, 0x4B], None)
   \<and> bit (0x32 :: byte) 5 = (example_signals ! 4 < example_signals ! 5)
   \<and> bit (0x32 :: byte) 7 = (example_signals ! 0 < example_signals ! 1)
   \<and> bit (0 :: byte) 7 = (example_signals ! 16 < example_signals ! 17)"
proof -
  have h: "length example_signals = 80" "length [0, 0, 0, 0, 0 :: byte] = 5"
    "1000 \<notin> set example_signals"
    using eval_example_signals by simp_all
  from extractData_decodes_bits [OF h] eval_example_signals
  have "\<forall>i<40. bit ([0x32, 0, 0x19, 0, 0x4B :: byte] ! (i div 8)) (7 - i mod 8)
      = (example_signals ! (2 * i) < example_signals ! (2 * i + 1))"
    by simp
  from this [rule_format, of 2] this [rule_format, of 0] this [rule_format, of 8]
    eval_example_signals
  show ?thesis
    by simp
qed

section \<open>The read cycle\<close>

lemma waitForDataTransmission_error:
  "waitForDataTransmission timeout h = (Some e, h') \<Longrightarrow> e = NoSignalError"
  by (auto simp: waitForDataTransmission_def split: prod.splits if_splits)

lemma read_cases:
  obtains
    (nosignal) h2 where
      "waitForDataTransmission timeout (initiateCommunication h) = (Some NoSignalError, h2)"
      "read timeout t h = Inr (Some NoSignalError, t, h2)"
  | (nodata) h2 signals' h3 where
      "waitForDataTransmission timeout (initiateCommunication h) = (None, h2)"
      "receiveSignals timeout (replicate 80 0) h2 = Inr (signals', h3)"
      "timeout \<in> set signals'"
      "read timeout t h = Inr (Some NoDataError, t, h3)"
  | (checksum) h2 signals' h3 buf' where
      "waitForDataTransmission timeout (initiateCommunication h) = (None, h2)"
      "receiveSignals timeout (replicate 80 0) h2 = Inr (signals', h3)"
      "extractData timeout signals' (replicate 5 0) = Inr (buf', None)"
      "isValid buf' = Inr False"
      "read timeout t h = Inr (Some ChecksumError, t, h3)"
  | (ok) h2 signals' h3 buf' where
      "waitForDataTransmission timeout (initiateCommunication h) = (None, h2)"
      "receiveSignals timeout (replicate 80 0) h2 = Inr (signals', h3)"
      "extractData timeout signals' (replicate 5 0) = Inr (buf', None)"
      "isValid buf' = Inr True"
      "read timeout t h = Inr (None, t\<lparr>temperature := fst (measurements t buf'),
          humidity := snd (measurements t buf')\<rparr>, h3)"
proof -
  obtain e h2 where w: "waitForDataTransmission timeout (initiateCommunication h) = (e, h2)"
    by (cases "waitForDataTransmission timeout (initiateCommunication h)")
  show thesis
  proof (cases e)
    case (Some err)
    with w have "err = NoSignalError"
      by (simp add: waitForDataTransmission_error)
    with w Some show thesis
      by (intro nosignal [of h2]) (simp_all add: read_def)
  next
    case None
    obtain signals' h3 where r: "receiveSignals timeout (replicate 80 0) h2 = Inr (signals', h3)"
      and len: "length signals' = 80"
      using receiveSignals_ok [of "replicate 80 0" timeout h2] by auto
    obtain buf' e2 where x: "extractData timeout signals' (replicate 5 0) = Inr (buf', e2)"
      and blen: "length buf' = 5"
      and e2: "e2 = Some NoDataError \<longleftrightarrow> timeout \<in> set signals'"
        "e2 = None \<longleftrightarrow> timeout \<notin> set signals'"
      using extractData_ok [OF len, of "replicate 5 0" timeout] by auto
    show thesis
    proof (cases "timeout \<in> set signals'")
      case True
      with e2 have "e2 = Some NoDataError"
        by simp
      with w None r x True show thesis
        by (intro nodata [of h2 signals' h3]) (simp_all add: read_def)
    next
      case False
      with e2 have n: "e2 = None"
        by simp
      from blen obtain v where v: "isValid buf' = Inr v"
        by (simp add: isValid_len5)
      show thesis
      proof (cases v)
        case True
        with w None r x n v show thesis
          by (intro ok [of h2 signals' h3 buf']) (simp_all add: read_def split: prod.splits)
      next
        case False
        with w None r x n v show thesis
          by (intro checksum [of h2 signals' h3 buf']) (simp_all add: read_def)
      qed
    qed
  qed
qed

lemma read_returns:
  "\<exists>err t' h'. read timeout t h = Inr (err, t', h')"
  by (cases rule: read_cases [of timeout h t]) simp_all

lemma Measurements_result:
  assumes "Measurements timeout t h = Inr ((temp, hum, err), t', h')"
  shows "\<exists>t1 h2. read timeout t (snd (powerUp h)) = Inr (err, t1, h2)
     \<and> h' = emit (SetLevel (fst (powerUp h))) h2
     \<and> (if err \<noteq> None
        then temp = temperature t1 \<and> hum = humidity t1 \<and> t' = t1\<lparr>initialized := True\<rparr>
        else temp = 0 \<and> hum = 0 \<and> t' = t1)"
proof -
  obtain err1 t1 h2 where r: "read timeout t (snd (powerUp h)) = Inr (err1, t1, h2)"
    using read_returns by blast
  with assms show ?thesis
    by (auto simp: Measurements_def split: prod.splits if_splits)
qed

text \<open>
  The example inputs, run through the code. Hardware states hold a function, so the
  results are compared field by field.
\<close>

lemma eval_sensor:
  "(case Measurements 1000 (New_device dht11_extractData) (sensor [0x32, 0, 0x19, 0, 0x4B]) of
      Inl _ \<Rightarrow> None
    | Inr ((temp, hum, err), t, h) \<Rightarrow>
        Some (temp, hum, err, initialized t, temperature t, humidity t, samples h))
   = Some (0, 0, None, False, 250, 500, 124)"
  by code_simp

lemma eval_silent:
  "(case Measurements 2 (New_device dht11_extractData) silent of
      Inl _ \<Rightarrow> None
    | Inr ((temp, hum, err), t, h) \<Rightarrow>
        Some (temp, hum, err, initialized t, temperature t, humidity t, samples h))
   = Some (0, 0, Some NoSignalError, True, 0, 0, 4)"
  by code_simp

lemma eval_three_waits:
  "fst (waitForDataTransmission 2 silent) = Some NoSignalError
   \<and> samples (snd (waitForDataTransmission 2 silent)) = 3
   \<and> fst (three_waits 2 silent) = Some NoSignalError
   \<and> samples (snd (three_waits 2 silent)) = 7"
  by code_simp

lemma eval_stalls:
  "fst (waitForDataTransmission 2 (initiateCommunication stalls_after_handshake)) = None
   \<and> (case receiveSignals 2 (replicate 80 0)
              (snd (waitForDataTransmission 2 (initiateCommunication stalls_after_handshake))) of
         Inl _ \<Rightarrow> None
       | Inr (signals', h3) \<Rightarrow> Some (signals', samples h3))
       = Some (concat (replicate 40 [0, 2]), 163)"
  by code_simp

lemma eval_read_silent:
  "(case read 2 device_with_reading silent of
      Inl _ \<Rightarrow> None
    | Inr (err, t, h) \<Rightarrow> Some (err, temperature t, humidity t))
   = Some (Some NoSignalError, 250, 500)
   \<and> (case Measurements 2 device_with_reading silent of
      Inl _ \<Rightarrow> None
    | Inr ((temp, hum, err), t, h) \<Rightarrow> Some (temp, hum, err, temperature t, humidity t))
   = Some (250, 500, Some NoSignalError, 250, 500)"
  by code_simp

lemma eval_waits:
  "fst (expectChange 1000 True (sensor [0x32, 0, 0x19, 0, 0x4B])) = 1
   \<and> fst (expectChange 1000 False (snd (expectChange 1000 True (sensor [0x32, 0, 0x19, 0, 0x4B])))) = 0
   \<and> fst (expectChange 1000 True (snd (expectChange 1000 False
         (snd (expectChange 1000 True (sensor [0x32, 0, 0x19, 0, 0x4B])))))) = 0
   \<and> samples (snd (expectChange 1000 True (snd (expectChange 1000 False
         (snd (expectChange 1000 True (sensor [0x32, 0, 0x19, 0, 0x4B])))))))  = 4
   \<and> fst (expectChange 2 True silent) = 2
   \<and> samples (snd (expectChange 2 True silent)) = 3"
  by code_simp

lemma eval_stalled_signals:
  "length (concat (replicate 40 [0, 2 :: counter])) = 80
   \<and> (2 :: counter) \<in> set (concat (replicate 40 [0, 2]))"
  by code_simp

text \<open>
  C6. When one of the 80 signals is \<open>timeout\<close>, \<open>extractData\<close> returns \<open>NoDataError\<close>. In
  \<open>read\<close>, when the handshake succeeded and one of the received signals is \<open>timeout\<close>, the
  result is \<open>NoDataError\<close> and the device is returned as it was, whatever its device type
  and whatever the partly built buffer holds: neither \<open>isValid\<close> nor the device type's
  \<open>extractData\<close> has a part in the result.
\<close>

theorem timeout_signal_gives_NoDataError:
  "(length signals = 80 \<and> length buf = 5 \<and> timeout \<in> set signals
      \<longrightarrow> (\<exists>buf'. extractData timeout signals buf = Inr (buf', Some NoDataError)))
   \<and> (waitForDataTransmission timeout (initiateCommunication h) = (None, h2)
        \<and> receiveSignals timeout (replicate 80 0) h2 = Inr (signals', h3)
        \<and> timeout \<in> set signals'
      \<longrightarrow> read timeout t h = Inr (Some NoDataError, t, h3))"
proof (intro conjI impI)
  assume "length signals = 80 \<and> length buf = 5 \<and> timeout \<in> set signals"
  with extractData_ok [of signals buf timeout]
  show "\<exists>buf'. extractData timeout signals buf = Inr (buf', Some NoDataError)"
    by auto
next
  assume a: "waitForDataTransmission timeout (initiateCommunication h) = (None, h2)
      \<and> receiveSignals timeout (replicate 80 0) h2 = Inr (signals', h3)
      \<and> timeout \<in> set signals'"
  with receiveSignals_ok [of "replicate 80 0" timeout h2] have "length signals' = 80"
    by auto
  with extractData_ok [of signals' "replicate 5 0" timeout] a
  obtain buf' where "extractData timeout signals' (replicate 5 0) = Inr (buf', Some NoDataError)"
    by auto
  with a show "read timeout t h = Inr (Some NoDataError, t, h3)"
    by (simp add: read_def)
qed

theorem timeout_signal_gives_NoDataError_witness:
  "(\<exists>buf'. extractData 2 (concat (replicate 40 [0, 2])) (replicate 5 0)
        = Inr (buf', Some NoDataError))
   \<and> (\<exists>h3. read 2 device_with_reading stalls_after_handshake
        = Inr (Some NoDataError, device_with_reading, h3))"
proof -
  let ?h2 = "snd (waitForDataTransmission 2 (initiateCommunication stalls_after_handshake))"
  have w: "waitForDataTransmission 2 (initiateCommunication stalls_after_handshake) = (None, ?h2)"
    using eval_stalls by (simp add: prod_eq_iff)
  obtain h3 where r: "receiveSignals 2 (replicate 80 0) ?h2 = Inr (concat (replicate 40 [0, 2]), h3)"
    using eval_stalls by (auto split: sum.splits)
  from timeout_signal_gives_NoDataError [where timeout = 2
      and signals = "concat (replicate 40 [0, 2])" and buf = "replicate 5 0"
      and h = stalls_after_handshake and ?h2.0 = ?h2 and signals' = "concat (replicate 40 [0, 2])"
      and ?h3.0 = h3 and t = device_with_reading]
    eval_stalled_signals w r
  show ?thesis
    by auto
qed

text \<open>
  C3. A \<open>read\<close> that returns an error returns \<open>NoSignalError\<close>, \<open>NoDataError\<close> or
  \<open>ChecksumError\<close> and leaves the device exactly as it was. A call of \<open>Measurements\<close> that
  returns an error leaves the stored temperature and humidity as they were.
\<close>

theorem failed_read_keeps_stored_values:
  "(read timeout t h = Inr (Some e, t1, h1)
      \<longrightarrow> e \<in> {NoSignalError, NoDataError, ChecksumError} \<and> t1 = t)
   \<and> (Measurements timeout t h = Inr ((temp, hum, Some e'), t2, h2)
      \<longrightarrow> temperature t2 = temperature t \<and> humidity t2 = humidity t)"
proof (intro conjI impI)
  assume "read timeout t h = Inr (Some e, t1, h1)"
  then show "e \<in> {NoSignalError, NoDataError, ChecksumError}" "t1 = t"
    by (cases rule: read_cases [of timeout h t]; simp)+
next
  assume "Measurements timeout t h = Inr ((temp, hum, Some e'), t2, h2)"
  from Measurements_result [OF this]
  obtain t1 h1 where r: "read timeout t (snd (powerUp h)) = Inr (Some e', t1, h1)"
    and t2: "t2 = t1\<lparr>initialized := True\<rparr>"
    by auto
  from r have "t1 = t"
    by (cases rule: read_cases [of timeout "snd (powerUp h)" t]; simp)
  with t2 show "temperature t2 = temperature t" "humidity t2 = humidity t"
    by simp_all
qed

theorem failed_read_keeps_stored_values_witness:
  "(\<exists>h1. read 2 device_with_reading silent = Inr (Some NoSignalError, device_with_reading, h1))
   \<and> (\<exists>t2 h2. Measurements 2 device_with_reading silent
          = Inr ((250, 500, Some NoSignalError), t2, h2)
        \<and> temperature t2 = 250 \<and> humidity t2 = 500)"
proof -
  obtain t1 h1 where r: "read 2 device_with_reading silent = Inr (Some NoSignalError, t1, h1)"
    using eval_read_silent by (auto split: sum.splits)
  obtain t2 h2 where m: "Measurements 2 device_with_reading silent
      = Inr ((250, 500, Some NoSignalError), t2, h2)"
    using eval_read_silent by (auto split: sum.splits)
  from failed_read_keeps_stored_values [where timeout = 2 and t = device_with_reading
      and h = silent and e = NoSignalError and ?t1.0 = t1 and ?h1.0 = h1
      and temp = 250 and hum = 500 and e' = NoSignalError and ?t2.0 = t2 and ?h2.0 = h2] r m
  show ?thesis
    by (auto simp: device_with_reading_def)
qed

section \<open>The transmission wait\<close>

text \<open>
  C8, as amended. \<open>waitForDataTransmission\<close> makes up to three successive waits
  (departure from high, from low, from high) and stops at the first that returns
  \<open>timeout\<close>: the hardware is left where that wait left it. It returns \<open>NoSignalError\<close>
  exactly when one of the three successive waits returns \<open>timeout\<close>, and nil otherwise,
  so its error is that of \<open>three_waits\<close>; when it returns nil it has made all three
  waits.
\<close>

theorem waitForDataTransmission_stops_at_first_timeout:
  assumes "expectChange timeout True h = (c1, h1)"
    and "expectChange timeout False h1 = (c2, h2)"
    and "expectChange timeout True h2 = (c3, h3)"
  shows "waitForDataTransmission timeout h =
      (if c1 = timeout \<or> c2 = timeout \<or> c3 = timeout then Some NoSignalError else None,
       if c1 = timeout then h1 else if c2 = timeout then h2 else h3)
    \<and> fst (waitForDataTransmission timeout h) = fst (three_waits timeout h)
    \<and> (if fst (waitForDataTransmission timeout h) = None
       then waitForDataTransmission timeout h = three_waits timeout h
       else fst (waitForDataTransmission timeout h) = Some NoSignalError)"
  using assms by (simp add: waitForDataTransmission_def three_waits_def)

theorem waitForDataTransmission_stops_at_first_timeout_witness:
  "fst (waitForDataTransmission 1000 (sensor [0x32, 0, 0x19, 0, 0x4B])) = None
   \<and> samples (snd (waitForDataTransmission 1000 (sensor [0x32, 0, 0x19, 0, 0x4B]))) = 4
   \<and> waitForDataTransmission 1000 (sensor [0x32, 0, 0x19, 0, 0x4B])
       = three_waits 1000 (sensor [0x32, 0, 0x19, 0, 0x4B])
   \<and> fst (waitForDataTransmission 2 silent) = Some NoSignalError
   \<and> samples (snd (waitForDataTransmission 2 silent)) = 3"
proof -
  let ?s = "sensor [0x32, 0, 0x19, 0, 0x4B]"
  let ?r1 = "expectChange 1000 True ?s"
  let ?r2 = "expectChange 1000 False (snd ?r1)"
  let ?r3 = "expectChange 1000 True (snd ?r2)"
  let ?q1 = "expectChange 2 True silent"
  let ?q2 = "expectChange 2 False (snd ?q1)"
  let ?q3 = "expectChange 2 True (snd ?q2)"
  have a: "?r1 = (fst ?r1, snd ?r1)" "?r2 = (fst ?r2, snd ?r2)" "?r3 = (fst ?r3, snd ?r3)"
    and b: "?q1 = (fst ?q1, snd ?q1)" "?q2 = (fst ?q2, snd ?q2)" "?q3 = (fst ?q3, snd ?q3)"
    by simp_all
  have c: "fst ?r1 \<noteq> 1000" "fst ?r2 \<noteq> 1000" "fst ?r3 \<noteq> 1000" "samples (snd ?r3) = 4"
    and d: "fst ?q1 = 2" "samples (snd ?q1) = 3"
    using eval_waits by simp_all
  note w1 = waitForDataTransmission_stops_at_first_timeout [OF a]
  note w2 = waitForDataTransmission_stops_at_first_timeout [OF b]
  from w1 c have s1: "waitForDataTransmission 1000 ?s = (None, snd ?r3)"
    by (simp only: if_False simp_thms)
  from w2 d(1) have s2: "waitForDataTransmission 2 silent = (Some NoSignalError, snd ?q1)"
    by (simp only: if_True simp_thms)
  have f: "fst (waitForDataTransmission 1000 ?s) = None"
    by (simp only: s1 fst_conv)
  have s3: "waitForDataTransmission 1000 ?s = three_waits 1000 ?s"
    using w1 [THEN conjunct2, THEN conjunct2] by (simp only: f if_True simp_thms)
  have "samples (snd (waitForDataTransmission 1000 ?s)) = 4"
    "fst (waitForDataTransmission 2 silent) = Some NoSignalError"
    "samples (snd (waitForDataTransmission 2 silent)) = 3"
    using c(4) d(2) by (simp_all only: s1 s2 fst_conv snd_conv)
  with f s3 show ?thesis
    by blast
qed

text \<open>
  C8 as stated fails where a wait before the third returns \<open>timeout\<close>: on a pin that
  stays high, with \<open>timeout = 2\<close>, the first wait takes three samples and returns 2, and
  \<open>waitForDataTransmission\<close> returns there, after one wait; three waits would have taken
  seven samples.
\<close>

theorem waitForDataTransmission_three_waits_counterexample:
  "waitForDataTransmission 2 silent \<noteq> three_waits 2 silent
   \<and> samples (snd (waitForDataTransmission 2 silent)) = 3
   \<and> samples (snd (three_waits 2 silent)) = 7"
proof -
  have "samples (snd (waitForDataTransmission 2 silent)) \<noteq> samples (snd (three_waits 2 silent))"
    using eval_three_waits by simp
  then have "waitForDataTransmission 2 silent \<noteq> three_waits 2 silent"
    by auto
  with eval_three_waits show ?thesis
    by simp
qed

section \<open>Measurements and the accessors\<close>

text \<open>
  What \<open>Measurements\<close> does on every input: when the read succeeds it returns zero for
  both values and leaves \<open>initialized\<close> as it was; when the read fails it returns the
  stored values and sets \<open>initialized\<close>.
\<close>

lemma Measurements_nil:
  assumes "Measurements timeout t h = Inr ((temp, hum, None), t', h')"
  shows "temp = 0 \<and> hum = 0 \<and> initialized t' = initialized t"
proof -
  from Measurements_result [OF assms]
  obtain h2 where r: "read timeout t (snd (powerUp h)) = Inr (None, t', h2)"
    and z: "temp = 0" "hum = 0"
    by auto
  from r have "initialized t' = initialized t"
    by (cases rule: read_cases [of timeout "snd (powerUp h)" t]; simp; fastforce)
  with z show ?thesis
    by simp
qed

lemma Measurements_error:
  assumes "Measurements timeout t h = Inr ((temp, hum, Some e), t', h')"
  shows "t' = t\<lparr>initialized := True\<rparr> \<and> temp = temperature t \<and> hum = humidity t"
proof -
  from Measurements_result [OF assms]
  obtain t1 h2 where r: "read timeout t (snd (powerUp h)) = Inr (Some e, t1, h2)"
    and z: "temp = temperature t1" "hum = humidity t1" "t' = t1\<lparr>initialized := True\<rparr>"
    by auto
  from r have "t1 = t"
    by (cases rule: read_cases [of timeout "snd (powerUp h)" t]; simp)
  with z show ?thesis
    by simp
qed

text \<open>
  C1 does not hold of the code. A new device reads the sensor that sends
  \<open>[0x32, 0x00, 0x19, 0x00, 0x4B]\<close>: \<open>Measurements\<close> returns a nil error, and the device is
  still not initialized, so that \<open>Temperature\<close> fails with \<open>UninitializedDataError\<close>.
\<close>

theorem Measurements_success_leaves_uninitialized:
  "\<exists>t' h'. Measurements 1000 (New_device dht11_extractData) (sensor [0x32, 0, 0x19, 0, 0x4B])
        = Inr ((0, 0, None), t', h')
     \<and> initialized t' = False
     \<and> Temperature t' = (0, Some UninitializedDataError)"
  using eval_sensor by (auto simp: Temperature_def split: sum.splits)

text \<open>
  C2 does not hold of the code. On the same input \<open>Measurements\<close> returns a nil error and
  the pair (0, 0), while the device has stored the decoded temperature 250 and humidity 500.
\<close>

theorem Measurements_success_returns_zero:
  "\<exists>t' h'. Measurements 1000 (New_device dht11_extractData) (sensor [0x32, 0, 0x19, 0, 0x4B])
        = Inr ((0, 0, None), t', h')
     \<and> temperature t' = 250 \<and> humidity t' = 500"
  using eval_sensor by (auto split: sum.splits)

lemma float32_div10_zero: "float32_div10 0 = 0"
  by (simp add: float32_div10_def find_None_iff)

lemma float32_div10_501: "float32_div10 501 = 13133414 / 262144"
  by (simp add: float32_div10_def Let_def)

text \<open>
  C7 does not hold of the code. A new device on a pin where no sensor answers: the only
  call of \<open>Measurements\<close> returns \<open>NoSignalError\<close>, and after it all four accessors return
  a nil error. A new device on the sensor above: \<open>Measurements\<close> returns a nil error, and
  after it all four accessors fail with \<open>UninitializedDataError\<close>.
\<close>

theorem accessors_after_first_Measurements:
  "(\<exists>t' h'. Measurements 2 (New_device dht11_extractData) silent
         = Inr ((0, 0, Some NoSignalError), t', h')
      \<and> Temperature t' = (0, None) \<and> Humidity t' = (0, None)
      \<and> (\<forall>scale. TemperatureFloat t' scale = (scale 0, None))
      \<and> HumidityFloat t' = (0, None))
   \<and> (\<exists>t' h'. Measurements 1000 (New_device dht11_extractData) (sensor [0x32, 0, 0x19, 0, 0x4B])
         = Inr ((0, 0, None), t', h')
      \<and> Temperature t' = (0, Some UninitializedDataError)
      \<and> Humidity t' = (0, Some UninitializedDataError)
      \<and> (\<forall>scale. TemperatureFloat t' scale = (0, Some UninitializedDataError))
      \<and> HumidityFloat t' = (0, Some UninitializedDataError))"
proof
  show "\<exists>t' h'. Measurements 2 (New_device dht11_extractData) silent
         = Inr ((0, 0, Some NoSignalError), t', h')
      \<and> Temperature t' = (0, None) \<and> Humidity t' = (0, None)
      \<and> (\<forall>scale. TemperatureFloat t' scale = (scale 0, None))
      \<and> HumidityFloat t' = (0, None)"
    using eval_silent
    by (auto simp: Temperature_def Humidity_def TemperatureFloat_def HumidityFloat_def
        float32_div10_zero
        split: sum.splits)
  show "\<exists>t' h'. Measurements 1000 (New_device dht11_extractData) (sensor [0x32, 0, 0x19, 0, 0x4B])
         = Inr ((0, 0, None), t', h')
      \<and> Temperature t' = (0, Some UninitializedDataError)
      \<and> Humidity t' = (0, Some UninitializedDataError)
      \<and> (\<forall>scale. TemperatureFloat t' scale = (0, Some UninitializedDataError))
      \<and> HumidityFloat t' = (0, Some UninitializedDataError)"
    using eval_sensor
    by (auto simp: Temperature_def Humidity_def TemperatureFloat_def HumidityFloat_def
        float32_div10_zero
        split: sum.splits)
qed

end
